theory Spec2Isabelle
  imports Main "HOL-Library.Word"
begin

section \<open>Google Cloud Storage objects as seekable streams (gcp/storage.py)\<close>

text \<open>
  The theory embeds the classes \<^verbatim>\<open>GSObject\<close> and \<^verbatim>\<open>GSFile\<close> of
  \<^verbatim>\<open>gcp/storage.py\<close>. A \<^verbatim>\<open>GSFile\<close> is a record of its private fields; the
  remote object, the local temporary files and the success of an upload form a second
  record, the world, which every method takes and returns. A method that raises returns
  \<open>Raise e\<close> together with the world and the stream as the exception leaves them, since
  the fields assigned before the \<^verbatim>\<open>raise\<close> keep their new values in Python.

  One stream is the only writer of its object and the only user of its temporary file:
  the metadata size of the blob handle is then the length of the remote object.
\<close>

subsection \<open>Values, errors and the world\<close>

type_synonym byte = "8 word"
type_synonym bytes = "byte list"

datatype error =
    ValueError string
  | TypeError
  | OSError
  | FileNotFoundError
  | UnicodeDecodeError
  | UploadError
  | BodyError

datatype 'a outcome = Return 'a | Raise error

text \<open>
  What \<^verbatim>\<open>read\<close> returns: the remote branch returns \<^verbatim>\<open>bytes\<close>, the temp-file
  branch opens the file with \<^verbatim>\<open>open(self.__temp_file)\<close>, that is in text mode, and returns
  a \<^verbatim>\<open>str\<close>; a missing object gives \<^verbatim>\<open>None\<close>. \<open>Text\<close> carries the code points
  of the \<^verbatim>\<open>str\<close>.
\<close>

datatype pyval = Bytes bytes | Text "nat list" | PyNone

text \<open>
  The world: the remote object, the local files, the next name of a temporary file,
  whether an upload succeeds, and the uploads made. \<open>text_layer\<close> is Python's text layer
  over a local file opened in text mode, for the files that are not plain ASCII text: given
  the bytes of the file, the position sought and the size asked, it is what
  \<^verbatim>\<open>f.seek(pos); f.read(size); f.tell()\<close> gives, the characters read and the position
  told, or the exception raised. How it decodes bytes beyond ASCII, translates carriage
  returns, counts characters and packs the state of its decoder into the position depends
  on the locale and the interpreter: it is a parameter.
\<close>

record world =
  blob_data :: "bytes option"
  local_files :: "nat \<Rightarrow> bytes option"
  next_temp :: nat
  upload_ok :: bool
  uploaded :: "bytes list"
  text_layer :: "bytes \<Rightarrow> int \<Rightarrow> int option \<Rightarrow> (nat list \<times> int) outcome"

record gsfile =
  f_offset :: int
  f_closed :: bool
  f_buffer :: "bytes option"
  f_buffer_offset :: "int option"
  f_temp_file :: "nat option"
  f_gz :: "bool option"

text \<open>\<^verbatim>\<open>GSFile.__init__\<close> (lines 216-231).\<close>

definition GSFile :: gsfile where
  "GSFile = \<lparr>f_offset = 0, f_closed = True, f_buffer = None, f_buffer_offset = None,
     f_temp_file = None, f_gz = None\<rparr>"

text \<open>
  \<^verbatim>\<open>blob.size\<close>, which is \<^verbatim>\<open>None\<close> for an object that does not exist;
  \<^verbatim>\<open>blob.exists()\<close> is the case distinction on \<open>blob_data\<close>.
\<close>

definition blob_size :: "world \<Rightarrow> int option" where
  "blob_size w = (case blob_data w of None \<Rightarrow> None | Some c \<Rightarrow> Some (int (length c)))"

text \<open>
  Modelled from the spec: the ranged GET of the remote store (\<^verbatim>\<open>download_as_string\<close> of the
  client library, an external collaborator). It returns the bytes \<open>start\<close> through \<open>end\<close>
  inclusive, or through the end of the object when \<open>end\<close> is absent, cut to the object.
\<close>

definition download_as_string :: "bytes \<Rightarrow> int \<Rightarrow> int option \<Rightarrow> bytes" where
  "download_as_string c start end_opt =
     (case end_opt of
        None \<Rightarrow> (if start < 0 then drop (length c - nat (- start)) c else drop (nat start) c)
      | Some e \<Rightarrow> take (nat (e + 1 - start)) (drop (nat start) c))"

text \<open>
  \<^verbatim>\<open>blob.upload_from_filename\<close>: the whole file becomes the object. The world says whether
  the upload succeeds; every upload that did is logged in \<open>uploaded\<close>.
\<close>

definition upload_from_filename :: "nat \<Rightarrow> world \<Rightarrow> unit outcome \<times> world" where
  "upload_from_filename p w =
     (case local_files w p of
        None \<Rightarrow> (Raise FileNotFoundError, w)
      | Some c \<Rightarrow>
          if upload_ok w then (Return (), w\<lparr>blob_data := Some c, uploaded := c # uploaded w\<rparr>)
          else (Raise UploadError, w))"

text \<open>
  Modelled from the spec: the \<^verbatim>\<open>closed\<close> attribute that \<^verbatim>\<open>write\<close> tests comes from the
  base class \<^verbatim>\<open>StorageFile\<close>, which is not among the sources. The spec's stream is Closed
  when it was created and not opened, or closed by \<^verbatim>\<open>close()\<close>: the field \<^verbatim>\<open>__closed\<close>.
\<close>

definition closed :: "gsfile \<Rightarrow> bool" where
  "closed s = f_closed s"

text \<open>Python's truth value of the buffer: \<^verbatim>\<open>None\<close> and \<^verbatim>\<open>b''\<close> are false.\<close>

definition truthy :: "bytes option \<Rightarrow> bool" where
  "truthy buf = (case buf of None \<Rightarrow> False | Some b \<Rightarrow> b \<noteq> [])"

subsection \<open>Seeking and reading (lines 299-362)\<close>

text \<open>
  \<^verbatim>\<open>__append\<close> (lines 368-393). The first branch creates the temporary file, downloads the
  object into it and writes the buffer where the download stopped, at the end. The second
  branch reopens the file with mode \<^verbatim>\<open>w+b\<close>, which empties it, seeks to the buffer's
  offset and writes there; the gap before it reads as zero bytes. In both, the offset is
  advanced by the length of the buffer.
\<close>

definition append_f :: "world \<Rightarrow> gsfile \<Rightarrow> unit outcome \<times> world \<times> gsfile" where
  "append_f w s =
     (case f_buffer s of
        None \<Rightarrow> (Return (), w, s)
      | Some b \<Rightarrow>
          if b = [] then (Return (), w, s)
          else (case f_temp_file s of
              None \<Rightarrow>
                (let p = next_temp w;
                     c0 = (case blob_data w of None \<Rightarrow> [] | Some c \<Rightarrow> c)
                 in (Return (),
                     w\<lparr>local_files := (local_files w)(p := Some (c0 @ b)), next_temp := Suc p\<rparr>,
                     s\<lparr>f_temp_file := Some p, f_buffer := None, f_buffer_offset := None,
                       f_offset := f_offset s + int (length b)\<rparr>))
            | Some p \<Rightarrow>
                (case f_buffer_offset s of
                   None \<Rightarrow> (Raise TypeError, w\<lparr>local_files := (local_files w)(p := Some [])\<rparr>, s)
                 | Some bo \<Rightarrow>
                     if bo < 0
                     then (Raise OSError, w\<lparr>local_files := (local_files w)(p := Some [])\<rparr>, s)
                     else (Return (),
                       w\<lparr>local_files := (local_files w)(p := Some (replicate (nat bo) 0 @ b))\<rparr>,
                       s\<lparr>f_buffer := None, f_buffer_offset := None,
                         f_offset := f_offset s + int (length b)\<rparr>))))"

definition seek :: "int \<Rightarrow> int \<Rightarrow> world \<Rightarrow> gsfile \<Rightarrow> int outcome \<times> world \<times> gsfile" where
  "seek pos whence w s =
     (case (if truthy (f_buffer s) then append_f w s else (Return (), w, s)) of
        (Raise e, w1, s1) \<Rightarrow> (Raise e, w1, s1)
      | (Return u, w1, s1) \<Rightarrow>
          if whence = 0 then (Return pos, w1, s1\<lparr>f_offset := pos\<rparr>)
          else if whence = 1
            then (Return (f_offset s1 + pos), w1, s1\<lparr>f_offset := f_offset s1 + pos\<rparr>)
          else if whence = 2
            then (case blob_size w1 of
                None \<Rightarrow> (Raise TypeError, w1, s1)
              | Some n \<Rightarrow> (Return (n + pos), w1, s1\<lparr>f_offset := n + pos\<rparr>))
          else (Raise (ValueError ''whence must be 0, 1 or 2.''), w1, s1))"

definition tell :: "gsfile \<Rightarrow> int" where
  "tell s = f_offset s"

text \<open>
  Plain ASCII text: every byte is below \<open>0x80\<close> and none is a carriage return. On such
  bytes every encoding that agrees with ASCII (UTF-8, Latin-1, ASCII itself) gives one
  character for each byte, no line end is translated, and the position told is the number
  of bytes passed.
\<close>

definition plain :: "bytes \<Rightarrow> bool" where
  "plain bs = list_all (\<lambda>b. b < 0x80 \<and> b \<noteq> 0x0D) bs"

text \<open>Python's \<^verbatim>\<open>repr\<close> of an integer, for the message of the ValueError of a seek.\<close>

fun str_nat :: "nat \<Rightarrow> string" where
  "str_nat n =
     (if n < 10 then [''0123456789'' ! n]
      else str_nat (n div 10) @ [''0123456789'' ! (n mod 10)])"

definition repr_int :: "int \<Rightarrow> string" where
  "repr_int i = (if i < 0 then CHR ''-'' # str_nat (nat (- i)) else str_nat (nat i))"

text \<open>
  \<^verbatim>\<open>read\<close> (lines 333-362). In the temp-file branch the file is opened in text mode. A
  negative offset makes \<^verbatim>\<open>f.seek\<close> raise. An offset below \<open>2^64\<close> is a plain byte
  position; when the file is plain ASCII text from there on, the read returns the
  characters of the bytes it covers and the offset becomes the byte position after them.
  In every other case the result and the new offset are those of the world's text layer,
  and an exception of the text layer leaves the offset as it was.
\<close>

definition read :: "int option \<Rightarrow> world \<Rightarrow> gsfile \<Rightarrow> pyval outcome \<times> world \<times> gsfile" where
  "read size_opt w s =
     (case f_temp_file s of
        Some p \<Rightarrow>
          (case local_files w p of
             None \<Rightarrow> (Raise FileNotFoundError, w, s)
           | Some c \<Rightarrow>
               if f_offset s < 0
               then (Raise (ValueError (''negative seek position '' @ repr_int (f_offset s))), w, s)
               else if f_offset s < 2 ^ 64 \<and> plain (drop (nat (f_offset s)) c)
               then (let rest = drop (nat (f_offset s)) c;
                         b = (case size_opt of
                                None \<Rightarrow> rest
                              | Some n \<Rightarrow> if n < 0 then rest else take (nat n) rest)
                     in (Return (Text (map unat b)), w,
                         s\<lparr>f_offset := f_offset s + int (length b)\<rparr>))
               else (case text_layer w c (f_offset s) size_opt of
                       Raise e \<Rightarrow> (Raise e, w, s)
                     | Return (t, pos) \<Rightarrow> (Return (Text t), w, s\<lparr>f_offset := pos\<rparr>)))
      | None \<Rightarrow>
          (case blob_data w of
             None \<Rightarrow> (Return PyNone, w, s)
           | Some c \<Rightarrow>
               (let blob_size = int (length c);
                    end0 = (case size_opt of
                              None \<Rightarrow> blob_size - 1
                            | Some n \<Rightarrow> if n = 0 then blob_size - 1 else f_offset s + n - 1);
                    end1 = (if end0 \<ge> blob_size - 1 then None else Some end0);
                    b = download_as_string c (f_offset s) end1
                in (Return (Bytes b), w,
                    s\<lparr>f_offset := (case end1 of
                                      None \<Rightarrow> blob_size
                                    | Some e \<Rightarrow> if e = 0 then blob_size else e + 1)\<rparr>))))"

subsection \<open>Writing, flushing, closing and opening (lines 395-447)\<close>

text \<open>
  \<^verbatim>\<open>write\<close> is modelled for a \<^verbatim>\<open>bytes\<close> argument (for a \<^verbatim>\<open>str\<close>, \<^verbatim>\<open>__append\<close>
  encodes the buffer before it writes it).
\<close>

definition write_f :: "bytes \<Rightarrow> world \<Rightarrow> gsfile \<Rightarrow> int outcome \<times> world \<times> gsfile" where
  "write_f b w s =
     (if closed s then (Raise (ValueError ''write to closed file''), w, s)
      else
        (let s1 = (case f_buffer s of
                     None \<Rightarrow> s\<lparr>f_buffer_offset := Some (f_offset s), f_buffer := Some b\<rparr>
                   | Some buf \<Rightarrow> s\<lparr>f_buffer := Some (buf @ b)\<rparr>);
             buffer_size = (case f_buffer s1 of None \<Rightarrow> 0 | Some buf \<Rightarrow> length buf)
         in case (if buffer_size > 1024 * 1024 then append_f w s1 else (Return (), w, s1)) of
              (Raise e, w2, s2) \<Rightarrow> (Raise e, w2, s2)
            | (Return u, w2, s2) \<Rightarrow>
                (Return (int (length b)), w2, s2\<lparr>f_offset := f_offset s2 + int (length b)\<rparr>)))"

definition flush :: "world \<Rightarrow> gsfile \<Rightarrow> unit outcome \<times> world \<times> gsfile" where
  "flush w s =
     (case append_f w s of
        (Raise e, w1, s1) \<Rightarrow> (Raise e, w1, s1)
      | (Return u, w1, s1) \<Rightarrow>
          (case f_temp_file s1 of
             None \<Rightarrow> (Return (), w1, s1)
           | Some p \<Rightarrow> (case upload_from_filename p w1 of (r, w2) \<Rightarrow> (r, w2, s1))))"

text \<open>
  \<^verbatim>\<open>close\<close>: the \<^verbatim>\<open>finally\<close> block runs whatever \<^verbatim>\<open>flush\<close> did, and the exception of
  \<^verbatim>\<open>flush\<close>, if any, is raised again after it. \<^verbatim>\<open>os.unlink\<close> raises for a file that
  is not there, which leaves the rest of the block undone.
\<close>

definition close :: "world \<Rightarrow> gsfile \<Rightarrow> unit outcome \<times> world \<times> gsfile" where
  "close w s =
     (if f_closed s then (Return (), w, s)
      else (case flush w s of
          (r, w1, s1) \<Rightarrow>
            (case f_temp_file s1 of
               None \<Rightarrow> (r, w1, s1\<lparr>f_buffer := None, f_closed := True\<rparr>)
             | Some p \<Rightarrow>
                 (case local_files w1 p of
                    None \<Rightarrow> (Raise FileNotFoundError, w1, s1)
                  | Some c \<Rightarrow>
                      (r, w1\<lparr>local_files := (local_files w1)(p := None)\<rparr>,
                       s1\<lparr>f_temp_file := None, f_buffer := None, f_closed := True\<rparr>)))))"

definition open_f :: "gsfile \<Rightarrow> gsfile" where
  "open_f s = s\<lparr>f_closed := False, f_buffer := None\<rparr>"

subsection \<open>The gzip test (lines 285-295)\<close>

definition hex_digit :: "nat \<Rightarrow> char" where
  "hex_digit n = ''0123456789abcdef'' ! (n mod 16)"

text \<open>\<^verbatim>\<open>binascii.hexlify\<close> takes bytes only: a \<^verbatim>\<open>str\<close> or \<^verbatim>\<open>None\<close> is a TypeError.\<close>

definition hexlify :: "pyval \<Rightarrow> string option" where
  "hexlify v =
     (case v of
        Bytes bs \<Rightarrow> Some (concat (map (\<lambda>b. [hex_digit (unat b div 16), hex_digit (unat b mod 16)]) bs))
      | Text t \<Rightarrow> None
      | PyNone \<Rightarrow> None)"

definition is_gz :: "world \<Rightarrow> gsfile \<Rightarrow> bool outcome \<times> world \<times> gsfile" where
  "is_gz w s =
     (case f_gz s of
        Some g \<Rightarrow> (Return g, w, s)
      | None \<Rightarrow>
          (case blob_size w of
             None \<Rightarrow> (Raise TypeError, w, s)
           | Some n \<Rightarrow>
               if n < 2 then (Return False, w, s)
               else (let offset = tell s in
                 case seek 0 0 w s of
                   (Raise e, w1, s1) \<Rightarrow> (Raise e, w1, s1)
                 | (Return u, w1, s1) \<Rightarrow>
                     (case read (Some 2) w1 s1 of
                        (Raise e, w2, s2) \<Rightarrow> (Raise e, w2, s2)
                      | (Return v, w2, s2) \<Rightarrow>
                          (case hexlify v of
                             None \<Rightarrow> (Raise TypeError, w2, s2)
                           | Some h \<Rightarrow>
                               (case seek offset 0 w2 s2 of
                                  (Raise e, w3, s3) \<Rightarrow> (Raise e, w3, s3)
                                | (Return u', w3, s3) \<Rightarrow>
                                    (Return (h = ''1f8b''), w3,
                                     s3\<lparr>f_gz := Some (h = ''1f8b'')\<rparr>)))))))"

subsection \<open>Programs over one stream\<close>

text \<open>
  A world for concrete runs: the remote object as given (or none), no local file, and
  uploads that succeed or fail as the flag says. Its text layer is one that decodes
  nothing: it raises the decoding error. No concrete run below asks it, since the files
  read there are plain ASCII text.
\<close>

definition world_of :: "bytes option \<Rightarrow> bool \<Rightarrow> world" where
  "world_of c ok =
     \<lparr>blob_data = c, local_files = (\<lambda>p. None), next_temp = 0, upload_ok = ok, uploaded = [],
      text_layer = (\<lambda>c pos size_opt. Raise UnicodeDecodeError)\<rparr>"

text \<open>
  The sequence \<^verbatim>\<open>open(); write(b); flush(); seek(0); read(len(b))\<close> on a stream: a call
  that raises ends the sequence with its exception.
\<close>

definition roundtrip :: "bytes \<Rightarrow> world \<Rightarrow> gsfile \<Rightarrow> pyval outcome \<times> world \<times> gsfile" where
  "roundtrip b w s =
     (case write_f b w (open_f s) of
        (Raise e, w1, s1) \<Rightarrow> (Raise e, w1, s1)
      | (Return n, w1, s1) \<Rightarrow>
          (case flush w1 s1 of
             (Raise e, w2, s2) \<Rightarrow> (Raise e, w2, s2)
           | (Return u, w2, s2) \<Rightarrow>
               (case seek 0 0 w2 s2 of
                  (Raise e, w3, s3) \<Rightarrow> (Raise e, w3, s3)
                | (Return pos, w3, s3) \<Rightarrow> read (Some (int (length b))) w3 s3)))"

subsection \<open>Locations and copy (lines 25-161)\<close>

text \<open>Python's \<^verbatim>\<open>str.startswith\<close> and \<^verbatim>\<open>str.endswith\<close>.\<close>

definition startswith :: "string \<Rightarrow> string \<Rightarrow> bool" where
  "startswith s p = (take (length p) s = p)"

definition endswith :: "string \<Rightarrow> string \<Rightarrow> bool" where
  "endswith s p = (length p \<le> length s \<and> drop (length s - length p) s = p)"

text \<open>
  Modelled from the spec: the attributes \<^verbatim>\<open>hostname\<close> and \<^verbatim>\<open>path\<close> come from the base
  class \<^verbatim>\<open>StorageObject\<close>, which is not among the sources. A URI has the form
  \<^verbatim>\<open>scheme://bucket/path\<close>: the bucket is what follows the scheme up to the first
  separator, the path is the rest, its leading separator included. A string with no scheme
  is all path.
\<close>

fun after_scheme :: "string \<Rightarrow> string option" where
  "after_scheme [] = None"
| "after_scheme (c # cs) =
     (if startswith (c # cs) ''://'' then Some (drop 3 (c # cs)) else after_scheme cs)"

definition uri_hostname :: "string \<Rightarrow> string" where
  "uri_hostname uri =
     (case after_scheme uri of None \<Rightarrow> [] | Some r \<Rightarrow> takeWhile (\<lambda>c. c \<noteq> CHR ''/'') r)"

definition uri_path :: "string \<Rightarrow> string" where
  "uri_path uri =
     (case after_scheme uri of None \<Rightarrow> uri | Some r \<Rightarrow> dropWhile (\<lambda>c. c \<noteq> CHR ''/'') r)"

text \<open>
  Modelled from the spec: \<^verbatim>\<open>name\<close>, also of \<^verbatim>\<open>StorageObject\<close>, is the source's own base
  name: the last component of the path, a trailing separator set aside.
\<close>

definition basename :: "string \<Rightarrow> string" where
  "basename p =
     rev (takeWhile (\<lambda>c. c \<noteq> CHR ''/'') (dropWhile (\<lambda>c. c = CHR ''/'') (rev p)))"

text \<open>\<^verbatim>\<open>GSObject.__init__\<close> (lines 31-45) and \<^verbatim>\<open>GSFolder.__init__\<close> (lines 170-182).\<close>

record gsobject =
  o_hostname :: string
  o_path :: string
  o_prefix :: string

definition GSObject :: "string \<Rightarrow> gsobject" where
  "GSObject gs_path =
     (let p = uri_path gs_path
      in \<lparr>o_hostname = uri_hostname gs_path, o_path = p,
          o_prefix = (if startswith p ''/'' then drop 1 p else p)\<rparr>)"

definition GSFolder :: "string \<Rightarrow> gsobject" where
  "GSFolder gs_path =
     (let self = GSObject gs_path
      in if o_prefix self \<noteq> [] \<and> \<not> endswith (o_prefix self) ''/''
         then self\<lparr>o_prefix := o_prefix self @ ''/''\<rparr> else self)"

definition bucket_name :: "gsobject \<Rightarrow> string" where
  "bucket_name self = o_hostname self"

definition name :: "gsobject \<Rightarrow> string" where
  "name self = basename (o_path self)"

text \<open>
  \<^verbatim>\<open>s.replace(old, new, 1)\<close>: the first occurrence of \<open>old\<close> in \<open>s\<close>, from the left,
  becomes \<open>new\<close>; an empty \<open>old\<close> occurs at the start.
\<close>

fun replace1 :: "string \<Rightarrow> string \<Rightarrow> string \<Rightarrow> string" where
  "replace1 [] old new = (if old = [] then new else [])"
| "replace1 (c # cs) old new =
     (if startswith (c # cs) old then new @ drop (length old) (c # cs)
      else c # replace1 cs old new)"

text \<open>
  \<^verbatim>\<open>GSObject.copy\<close> (lines 99-156). \<open>copy_to\<close> is the value of \<^verbatim>\<open>to\<close> when
  \<^verbatim>\<open>destination = GSObject(to)\<close> is built. \<open>copy\<close> takes the listing
  \<^verbatim>\<open>self.blobs()\<close> as the names of the listed objects and returns the calls of
  \<^verbatim>\<open>copy_blob\<close> it makes: the source name, the destination bucket and the new name.
\<close>

definition copy_to :: "gsobject \<Rightarrow> string \<Rightarrow> string" where
  "copy_to self to =
     (let to1 = (if o_prefix (GSObject to) = [] \<and> \<not> endswith to ''/'' then to @ ''/'' else to)
      in if endswith (o_prefix self) ''/''
         then (if endswith to1 ''/'' then to1 @ name self @ ''/'' else to1 @ ''/'')
         else (if endswith to1 ''/'' then to1 @ name self else to1))"

definition copy :: "gsobject \<Rightarrow> string \<Rightarrow> string list \<Rightarrow> (string \<times> string \<times> string) list" where
  "copy self to source_files =
     (let destination = GSObject (copy_to self to)
      in concat (map (\<lambda>blob_name.
           (let new_name = replace1 blob_name (o_prefix self) (o_prefix destination)
            in if new_name \<noteq> blob_name then [(blob_name, bucket_name destination, new_name)]
               else []))
         source_files))"

subsection \<open>Invariants and the context manager\<close>

text \<open>
  The stream owns its temporary file: the path it holds, if any, names a file that exists.
\<close>

definition temp_ok :: "world \<Rightarrow> gsfile \<Rightarrow> bool" where
  "temp_ok w s =
     (case f_temp_file s of
        None \<Rightarrow> True
      | Some p \<Rightarrow> (case local_files w p of None \<Rightarrow> False | Some c \<Rightarrow> True))"

text \<open>
  What holds of a stream and its world between calls: the temporary file exists, a closed
  stream has neither a buffer nor a temporary file, and every local file is one of \<open>D\<close>
  or the stream's temporary file.
\<close>

definition stream_inv :: "nat set \<Rightarrow> world \<Rightarrow> gsfile \<Rightarrow> bool" where
  "stream_inv D w s =
     (temp_ok w s \<and>
      (if f_closed s then f_buffer s = None \<and> f_temp_file s = None else True) \<and>
      (\<forall>p. local_files w p = None \<or> p \<in> D \<or> f_temp_file s = Some p))"

text \<open>
  The body of a \<^verbatim>\<open>with\<close> block, as far as the stream goes: a list of calls on the
  stream, run in order until one raises; \<open>Fail\<close> is an exception raised by the body
  itself.
\<close>

datatype op = Write bytes | Read "int option" | Seek int int | Flush | Close | Open | IsGz | Fail

definition discard :: "'a outcome \<times> world \<times> gsfile \<Rightarrow> unit outcome \<times> world \<times> gsfile" where
  "discard x = (case x of (Return v, w, s) \<Rightarrow> (Return (), w, s) | (Raise e, w, s) \<Rightarrow> (Raise e, w, s))"

fun step :: "op \<Rightarrow> world \<Rightarrow> gsfile \<Rightarrow> unit outcome \<times> world \<times> gsfile" where
  "step (Write b) w s = discard (write_f b w s)"
| "step (Read n) w s = discard (read n w s)"
| "step (Seek pos whence) w s = discard (seek pos whence w s)"
| "step Flush w s = flush w s"
| "step Close w s = close w s"
| "step Open w s = (Return (), w, open_f s)"
| "step IsGz w s = discard (is_gz w s)"
| "step Fail w s = (Raise BodyError, w, s)"

fun run :: "op list \<Rightarrow> world \<Rightarrow> gsfile \<Rightarrow> unit outcome \<times> world \<times> gsfile" where
  "run [] w s = (Return (), w, s)"
| "run (c # cs) w s =
     (case step c w s of
        (Raise e, w1, s1) \<Rightarrow> (Raise e, w1, s1)
      | (Return u, w1, s1) \<Rightarrow> run cs w1 s1)"

text \<open>
  \<^verbatim>\<open>__enter__\<close> and \<^verbatim>\<open>__exit__\<close> (lines 442-447), and Python's \<^verbatim>\<open>with\<close>
  statement: \<^verbatim>\<open>__exit__\<close> runs however the body ends; it returns \<^verbatim>\<open>None\<close>, so an
  exception of the body is raised again after it, unless \<^verbatim>\<open>__exit__\<close> itself raises.
\<close>

definition enter :: "gsfile \<Rightarrow> gsfile" where
  "enter s = open_f s"

definition exit_f :: "world \<Rightarrow> gsfile \<Rightarrow> unit outcome \<times> world \<times> gsfile" where
  "exit_f w s = close w s"

definition with_stream ::
  "(world \<Rightarrow> gsfile \<Rightarrow> 'a outcome \<times> world \<times> gsfile) \<Rightarrow> world \<Rightarrow> gsfile \<Rightarrow>
     'a outcome \<times> world \<times> gsfile" where
  "with_stream body w s =
     (case body w (enter s) of
        (r, w1, s1) \<Rightarrow>
          (case exit_f w1 s1 of
             (Raise e, w2, s2) \<Rightarrow> (Raise e, w2, s2)
           | (Return u, w2, s2) \<Rightarrow> (r, w2, s2)))"

section \<open>Properties\<close>

lemmas stream_defs =
  world_of_def GSFile_def open_f_def write_f_def closed_def append_f_def flush_def
  upload_from_filename_def seek_def truthy_def read_def tell_def blob_size_def
  download_as_string_def close_def plain_def Let_def

subsection \<open>Writing and reading back\<close>

lemma write_below_threshold:
  assumes "\<not> closed s"
    and "length (case f_buffer s of None \<Rightarrow> b | Some buf \<Rightarrow> buf @ b) \<le> 1024 * 1024"
  shows "\<exists>s'. write_f b w s = (Return (int (length b)), w, s') \<and>
    tell s' = tell s + int (length b)"
  using assms by (auto simp: write_f_def tell_def Let_def split: option.splits)

lemma roundtrip_no_object:
  assumes "b \<noteq> []" and "plain b"
  shows "\<exists>w' s'. roundtrip b ((world_of None True)\<lparr>text_layer := layer\<rparr>) GSFile =
    (Return (Text (map unat b)), w', s')"
  using assms by (auto simp: roundtrip_def stream_defs split: option.splits)

text \<open>
  Claim C1 (write, flush and read round trip), at an input where the code departs from it.
  The object holds the one byte \<open>0x58\<close>; the stream is new; \<open>b\<close> is the one byte
  \<open>0x61\<close>. \<^verbatim>\<open>__append\<close> writes \<open>b\<close> after the downloaded object, not at the buffer's
  offset 0, so the object becomes \<open>0x58 0x61\<close>; \<^verbatim>\<open>read(1)\<close> from the temporary file then
  returns the character \<open>0x58\<close>, a \<^verbatim>\<open>str\<close>, where the claim has the bytes \<open>b\<close>. The
  file is plain ASCII text, so this holds whatever the text layer of the world is.
\<close>

theorem C1_roundtrip_existing_object:
  "(case roundtrip [0x61] ((world_of (Some [0x58]) True)\<lparr>text_layer := layer\<rparr>) GSFile of
      (r, w, s) \<Rightarrow> (r, blob_data w)) = (Return (Text [0x58]), Some [0x58, 0x61])"
  by (simp add: roundtrip_def stream_defs)

text \<open>
  Claim C3 (a write advances the offset by the length written), at an input where the code
  departs from it. A write of \<open>2^20 + 1\<close> bytes on a new, opened stream crosses the
  threshold: \<^verbatim>\<open>__append\<close> adds the length of the buffer to the offset and \<^verbatim>\<open>write\<close>
  adds the length of \<open>b\<close> again, so the offset goes from 0 to \<open>2097154\<close>, twice the length.
\<close>

theorem C3_write_over_threshold:
  "(case write_f (replicate 1048577 0) (world_of None True) (open_f GSFile) of
      (r, w, s) \<Rightarrow> (r, tell s)) = (Return 1048577, 2097154)"
  by (simp add: stream_defs)

subsection \<open>Ranged reads of the remote object\<close>

lemma read_remote_inside:
  assumes "f_temp_file s = None" and "blob_data w = Some c"
    and "0 \<le> f_offset s" and "f_offset s \<le> int (length c)"
    and "0 < n" and "f_offset s + n \<noteq> 1"
  shows "read (Some n) w s =
    (Return (Bytes (take (nat n) (drop (nat (f_offset s)) c))), w,
     s\<lparr>f_offset := f_offset s + int (length (take (nat n) (drop (nat (f_offset s)) c)))\<rparr>)"
  using assms by (auto simp: read_def Let_def download_as_string_def min_def)

text \<open>
  Claim C4 (a ranged read leaves the offset one past the last byte retrieved), at an input
  where the code departs from it. The object has three bytes, the stream is at offset 0
  with no temporary file, and \<^verbatim>\<open>read(1)\<close> asks for the range 0 to 0. One byte comes
  back, but \<^verbatim>\<open>if end:\<close> takes the end 0 for an absent end and the offset becomes the
  size of the object, 3, where the claim has 1.
\<close>

theorem C4_read_first_byte:
  "(case read (Some 1) (world_of (Some [1, 2, 3]) True) (open_f GSFile) of
      (r, w, s) \<Rightarrow> (r, tell s)) = (Return (Bytes [1]), 3)"
  by (simp add: stream_defs)

subsection \<open>Reads of the temporary file\<close>

lemma read_temp_plain:
  assumes "f_temp_file s = Some p" and "local_files w p = Some c"
    and "0 \<le> f_offset s" and "f_offset s < 2 ^ 64" and "plain (drop (nat (f_offset s)) c)"
    and "0 \<le> n"
  shows "read (Some n) w s =
    (Return (Text (map unat (take (nat n) (drop (nat (f_offset s)) c)))), w,
     s\<lparr>f_offset := f_offset s + int (length (take (nat n) (drop (nat (f_offset s)) c)))\<rparr>)"
  using assms by (simp add: read_def Let_def)

lemma read_temp_text_layer:
  assumes "f_temp_file s = Some p" and "local_files w p = Some c"
    and "0 \<le> f_offset s" and "\<not> plain (drop (nat (f_offset s)) c)"
  shows "read size_opt w s =
    (case text_layer w c (f_offset s) size_opt of
       Raise e \<Rightarrow> (Raise e, w, s)
     | Return (t, pos) \<Rightarrow> (Return (Text t), w, s\<lparr>f_offset := pos\<rparr>))"
  using assms by (simp add: read_def)

lemma read_temp_negative_offset:
  assumes "f_temp_file s = Some p" and "local_files w p = Some c" and "f_offset s = - 12"
  shows "read size_opt w s = (Raise (ValueError ''negative seek position -12''), w, s)"
  using assms by (simp add: read_def repr_int_def)

subsection \<open>Seeking with a malformed whence\<close>

lemma seek_bad_whence_no_buffer:
  assumes "whence \<noteq> 0" and "whence \<noteq> 1" and "whence \<noteq> 2" and "\<not> truthy (f_buffer s)"
  shows "seek pos whence w s = (Raise (ValueError ''whence must be 0, 1 or 2.''), w, s)"
  using assms by (simp add: seek_def)

text \<open>
  Claim C6 (a seek with a whence outside 0, 1, 2 fails and leaves the offset unchanged), at
  an input where the code departs from it. After \<^verbatim>\<open>write\<close> of one byte on a new, opened
  stream the offset is 1 and the byte is pending. \<^verbatim>\<open>seek(0, 3)\<close> first runs
  \<^verbatim>\<open>__append\<close>, which adds the length of the buffer to the offset, and only then raises:
  the offset is 2 after the failed call.
\<close>

theorem C6_seek_bad_whence_pending_buffer:
  "(case write_f [1] (world_of None True) (open_f GSFile) of
      (r1, w1, s1) \<Rightarrow>
        (case seek 0 3 w1 s1 of (r2, w2, s2) \<Rightarrow> (r2, tell s1, tell s2))) =
   (Raise (ValueError ''whence must be 0, 1 or 2.''), 1, 2)"
  by (simp add: stream_defs)

subsection \<open>The closed state\<close>

text \<open>
  Claim C5 as the code has it: on a closed stream \<^verbatim>\<open>write\<close> raises the error of a
  closed file and changes neither the stream nor the world, so nothing is uploaded;
  \<^verbatim>\<open>flush\<close> has no test of the state and does not raise: on a closed stream, which
  has neither a buffer nor a temporary file, it returns and changes nothing.
\<close>

theorem C5_closed_write_raises_flush_returns:
  "closed s \<Longrightarrow>
     write_f b w s = (Raise (ValueError ''write to closed file''), w, s) \<and>
     (f_buffer s = None \<and> f_temp_file s = None \<longrightarrow> flush w s = (Return (), w, s))"
  by (simp add: write_f_def flush_def append_f_def)

theorem C5_closed_write_raises_flush_returns_witness:
  "closed GSFile \<and>
   write_f [1] (world_of None True) GSFile =
     (Raise (ValueError ''write to closed file''), world_of None True, GSFile) \<and>
   flush (world_of None True) GSFile = (Return (), world_of None True, GSFile)"
proof -
  have c: "closed GSFile"
    by (simp add: closed_def GSFile_def)
  have n: "f_buffer GSFile = None \<and> f_temp_file GSFile = None"
    by (simp add: GSFile_def)
  show ?thesis
    using C5_closed_write_raises_flush_returns [OF c, of "[1]" "world_of None True"] c n
    by simp
qed

text \<open>
  Claim C5 as the spec states it fails for \<^verbatim>\<open>flush\<close>: on the closed stream that
  \<^verbatim>\<open>GSFile(...)\<close> constructs, \<^verbatim>\<open>flush\<close> returns without an error.
\<close>

theorem C5_flush_on_closed_counterexample:
  "closed GSFile \<and>
   (case flush (world_of None True) GSFile of (r, w, s) \<Rightarrow> r) = Return ()"
  by (simp add: stream_defs)

text \<open>
  Claim C8 as the code has it: a new stream is closed, at offset 0, with no buffer;
  \<^verbatim>\<open>open\<close> marks the stream open and empties the buffer, and leaves the offset, the
  buffer's offset, the temporary file and the cached gzip flag as they were.
\<close>

theorem C8_new_closed_open_clears_buffer:
  "closed GSFile \<and> tell GSFile = 0 \<and> f_buffer GSFile = None \<and>
   \<not> closed (open_f s) \<and> f_buffer (open_f s) = None \<and>
   tell (open_f s) = tell s \<and> f_buffer_offset (open_f s) = f_buffer_offset s \<and>
   f_temp_file (open_f s) = f_temp_file s \<and> f_gz (open_f s) = f_gz s"
  by (simp add: closed_def GSFile_def open_f_def tell_def)

text \<open>
  Claim C8 as the spec states it fails for the position: \<^verbatim>\<open>seek(5)\<close> on a new stream
  and then \<^verbatim>\<open>open()\<close> leaves the stream at offset 5, not at the offset 0 of a new
  stream.
\<close>

theorem C8_open_keeps_offset_counterexample:
  "(case seek 5 0 (world_of None True) GSFile of
      (r, w, s) \<Rightarrow> (r, tell (open_f s), tell GSFile)) = (Return 5, 5, 0)"
  by (simp add: stream_defs)

subsection \<open>What the operations preserve\<close>

lemma append_inv:
  assumes "stream_inv D w s" and "append_f w s = (r, w', s')"
  shows "stream_inv D w' s' \<and> f_closed s' = f_closed s"
proof -
  have t: "temp_ok w' s'" and c: "f_closed s' = f_closed s"
    and b: "(if f_closed s' then f_buffer s' = None \<and> f_temp_file s' = None else True)"
    using assms
    by (auto simp: stream_inv_def temp_ok_def append_f_def Let_def split: option.splits if_splits)
  have f: "local_files w' p = None \<or> p \<in> D \<or> f_temp_file s' = Some p" for p
  proof -
    have "local_files w p = None \<or> p \<in> D \<or> f_temp_file s = Some p"
      using assms(1) by (simp add: stream_inv_def)
    then show ?thesis
      using assms(2)
      by (auto simp: append_f_def Let_def split: option.splits if_splits)
  qed
  show ?thesis using t c b f by (simp add: stream_inv_def)
qed

lemma upload_files:
  "upload_from_filename p w = (r, w') \<Longrightarrow> local_files w' = local_files w"
  by (auto simp: upload_from_filename_def split: option.splits if_splits)

lemma stream_inv_files:
  "stream_inv D w s \<Longrightarrow> local_files w' = local_files w \<Longrightarrow> stream_inv D w' s"
  by (auto simp: stream_inv_def temp_ok_def split: option.splits)

lemma flush_inv:
  assumes "stream_inv D w s" and "flush w s = (r, w', s')"
  shows "stream_inv D w' s' \<and> f_closed s' = f_closed s"
proof -
  obtain r1 w1 s1 where a: "append_f w s = (r1, w1, s1)"
    by (cases "append_f w s") auto
  have i1: "stream_inv D w1 s1 \<and> f_closed s1 = f_closed s"
    using append_inv [OF assms(1) a] .
  show ?thesis
  proof (cases r1)
    case (Raise e)
    with a assms(2) i1 show ?thesis by (simp add: flush_def)
  next
    case (Return u)
    show ?thesis
    proof (cases "f_temp_file s1")
      case None
      with a Return assms(2) i1 show ?thesis by (simp add: flush_def)
    next
      case (Some p)
      obtain r2 w2 where u: "upload_from_filename p w1 = (r2, w2)"
        by (cases "upload_from_filename p w1") auto
      from a Return Some u assms(2) have "w' = w2" "s' = s1" by (simp_all add: flush_def)
      with i1 stream_inv_files [OF _ upload_files [OF u], of D s1] show ?thesis by simp
    qed
  qed
qed

lemma stream_inv_offset:
  "stream_inv D w s \<Longrightarrow> stream_inv D w (s\<lparr>f_offset := n\<rparr>)"
  by (simp add: stream_inv_def temp_ok_def)

lemma write_inv:
  assumes "stream_inv D w s" and "write_f b w s = (r, w', s')"
  shows "stream_inv D w' s'"
proof (cases "closed s")
  case True
  with assms show ?thesis by (simp add: write_f_def)
next
  case False
  define s1 where "s1 = (case f_buffer s of
                     None \<Rightarrow> s\<lparr>f_buffer_offset := Some (f_offset s), f_buffer := Some b\<rparr>
                   | Some buf \<Rightarrow> s\<lparr>f_buffer := Some (buf @ b)\<rparr>)"
  have i1: "stream_inv D w s1"
    using assms(1) False by (auto simp: s1_def stream_inv_def temp_ok_def closed_def split: option.splits)
  show ?thesis
  proof (cases "(case f_buffer s1 of None \<Rightarrow> 0 | Some buf \<Rightarrow> length buf) > 1024 * 1024")
    case big: True
    obtain r2 w2 s2 where a: "append_f w s1 = (r2, w2, s2)"
      by (cases "append_f w s1") auto
    have i2: "stream_inv D w2 s2" using append_inv [OF i1 a] by simp
    from assms(2) False big a show ?thesis
      using i2 by (cases r2) (auto simp: write_f_def Let_def s1_def [symmetric] stream_inv_offset)
  next
    case small: False
    from assms(2) False small show ?thesis
      using i1 by (auto simp: write_f_def Let_def s1_def [symmetric] stream_inv_offset)
  qed
qed

lemma seek_inv:
  assumes "stream_inv D w s" and "seek pos whence w s = (r, w', s')"
  shows "stream_inv D w' s'"
proof -
  obtain r1 w1 s1 where a: "(if truthy (f_buffer s) then append_f w s else (Return (), w, s)) = (r1, w1, s1)"
    by (cases "(if truthy (f_buffer s) then append_f w s else (Return (), w, s))") auto
  have i1: "stream_inv D w1 s1"
    using a assms(1) append_inv [of D w s r1 w1 s1] by (auto split: if_splits)
  from assms(2) a i1 show ?thesis
    by (cases r1) (auto simp: seek_def stream_inv_offset split: if_splits option.splits)
qed

lemma read_inv:
  "stream_inv D w s \<Longrightarrow> read n w s = (r, w', s') \<Longrightarrow> stream_inv D w' s'"
  by (auto simp: read_def Let_def stream_inv_offset
      split: if_splits option.splits outcome.splits prod.splits)

lemma close_closed:
  "f_closed s \<Longrightarrow> close w s = (Return (), w, s)"
  by (simp add: close_def)

lemma close_open:
  assumes "temp_ok w s" and "\<not> f_closed s" and "flush w s = (r, w1, s1)"
  shows "close w s =
    (r,
     w1\<lparr>local_files := (case f_temp_file s1 of
                           None \<Rightarrow> local_files w1
                         | Some p \<Rightarrow> (local_files w1)(p := None))\<rparr>,
     s1\<lparr>f_temp_file := None, f_buffer := None, f_closed := True\<rparr>)"
proof -
  have "stream_inv UNIV w s"
    using assms(1,2) by (simp add: stream_inv_def)
  then have "stream_inv UNIV w1 s1"
    using flush_inv assms(3) by blast
  then have "temp_ok w1 s1"
    by (simp add: stream_inv_def)
  then show ?thesis
    using assms(2,3) by (auto simp: close_def temp_ok_def split: option.splits)
qed

lemma close_inv:
  assumes "stream_inv D w s" and "close w s = (r, w', s')"
  shows "stream_inv D w' s'"
proof (cases "f_closed s")
  case True
  with assms show ?thesis by (simp add: close_def)
next
  case False
  obtain r1 w1 s1 where fl: "flush w s = (r1, w1, s1)"
    by (cases "flush w s") auto
  have i1: "stream_inv D w1 s1"
    using flush_inv [OF assms(1) fl] by simp
  have "temp_ok w s" using assms(1) by (simp add: stream_inv_def)
  from close_open [OF this False fl] assms(2)
  have w': "w' = w1\<lparr>local_files := (case f_temp_file s1 of
                           None \<Rightarrow> local_files w1
                         | Some p \<Rightarrow> (local_files w1)(p := None))\<rparr>"
    and s': "s' = s1\<lparr>f_temp_file := None, f_buffer := None, f_closed := True\<rparr>"
    by simp_all
  have f: "local_files w' p = None \<or> p \<in> D" for p
  proof -
    have "local_files w1 p = None \<or> p \<in> D \<or> f_temp_file s1 = Some p"
      using i1 by (simp add: stream_inv_def)
    then show ?thesis by (auto simp: w' split: option.splits)
  qed
  show ?thesis
    using f by (simp add: stream_inv_def temp_ok_def s')
qed

lemma is_gz_inv:
  assumes "stream_inv D w s" and "is_gz w s = (r, w', s')"
  shows "stream_inv D w' s'"
proof (cases "f_gz s")
  case (Some g)
  with assms show ?thesis by (simp add: is_gz_def)
next
  case None
  show ?thesis
  proof (cases "blob_size w")
    case none: None
    with None assms show ?thesis by (simp add: is_gz_def)
  next
    case (Some n)
    show ?thesis
    proof (cases "n < 2")
      case True
      with None Some assms show ?thesis by (simp add: is_gz_def)
    next
      case False
      obtain r1 w1 s1 where a: "seek 0 0 w s = (r1, w1, s1)"
        by (cases "seek 0 0 w s") auto
      have i1: "stream_inv D w1 s1" using seek_inv [OF assms(1) a] .
      obtain r2 w2 s2 where b: "read (Some 2) w1 s1 = (r2, w2, s2)"
        by (cases "read (Some 2) w1 s1") auto
      have i2: "stream_inv D w2 s2" using read_inv [OF i1 b] .
      obtain r3 w3 s3 where c: "seek (tell s) 0 w2 s2 = (r3, w3, s3)"
        by (cases "seek (tell s) 0 w2 s2") auto
      have i3: "stream_inv D w3 s3" using seek_inv [OF i2 c] .
      have i4: "stream_inv D w3 (s3\<lparr>f_gz := x\<rparr>)" for x
        using i3 by (simp add: stream_inv_def temp_ok_def)
      from assms(2) None Some False a b c i1 i2 i3 i4 show ?thesis
        by (auto simp: is_gz_def Let_def split: outcome.splits option.splits)
    qed
  qed
qed

lemma discard_state:
  "discard x = (r, w', s') \<Longrightarrow> \<exists>r0. x = (r0, w', s')"
  by (auto simp: discard_def split: prod.splits outcome.splits)

lemma step_inv:
  assumes "stream_inv D w s" and "step c w s = (r, w', s')"
  shows "stream_inv D w' s'"
proof (cases c)
  case (Write b)
  with assms show ?thesis by (auto dest!: discard_state dest: write_inv)
next
  case (Read n)
  with assms show ?thesis by (auto dest!: discard_state dest: read_inv)
next
  case (Seek pos whence)
  with assms show ?thesis by (auto dest!: discard_state dest: seek_inv)
next
  case Flush
  with assms show ?thesis by (auto dest: flush_inv)
next
  case Close
  with assms show ?thesis by (auto dest: close_inv)
next
  case Open
  with assms(2) have "w' = w" and "s' = open_f s" by simp_all
  with assms(1) show ?thesis by (simp add: stream_inv_def temp_ok_def open_f_def)
next
  case IsGz
  with assms show ?thesis by (auto dest!: discard_state dest: is_gz_inv)
next
  case Fail
  with assms show ?thesis by auto
qed

lemma run_inv:
  "stream_inv D w s \<Longrightarrow> run cs w s = (r, w', s') \<Longrightarrow> stream_inv D w' s'"
proof (induction cs arbitrary: w s)
  case Nil
  then show ?case by simp
next
  case (Cons c cs)
  obtain r1 w1 s1 where st: "step c w s = (r1, w1, s1)"
    by (cases "step c w s") auto
  have i1: "stream_inv D w1 s1" using step_inv [OF Cons.prems(1) st] .
  show ?case
  proof (cases r1)
    case (Return u)
    with Cons.prems(2) st have "run cs w1 s1 = (r, w', s')" by simp
    from Cons.IH [OF i1 this] show ?thesis .
  next
    case (Raise e)
    with Cons.prems(2) st i1 show ?thesis by simp
  qed
qed

subsection \<open>Closing and the context manager\<close>

text \<open>
  Claim C7 (close). On a closed stream \<^verbatim>\<open>close\<close> changes nothing. On an open stream
  that owns its temporary file it runs \<^verbatim>\<open>flush\<close> and then, whatever \<^verbatim>\<open>flush\<close>
  returned or raised (a failed upload included), removes the temporary file that
  \<^verbatim>\<open>flush\<close> left, clears its path and the buffer and marks the stream closed; the
  outcome of \<^verbatim>\<open>close\<close> is the outcome of \<^verbatim>\<open>flush\<close>.
\<close>

theorem C7_close_flushes_then_cleans_up:
  "temp_ok w s \<Longrightarrow>
     (if f_closed s then close w s = (Return (), w, s)
      else (case flush w s of
          (r, w1, s1) \<Rightarrow>
            close w s =
              (r,
               w1\<lparr>local_files := (case f_temp_file s1 of
                                     None \<Rightarrow> local_files w1
                                   | Some p \<Rightarrow> (local_files w1)(p := None))\<rparr>,
               s1\<lparr>f_temp_file := None, f_buffer := None, f_closed := True\<rparr>)))"
  using close_closed close_open by (auto split: prod.splits)

text \<open>
  An open stream with one pending byte in a world where the upload fails: \<^verbatim>\<open>flush\<close>
  raises and leaves the temporary file 0; \<^verbatim>\<open>close\<close> raises the same error, and the file
  is gone, the path and the buffer are cleared and the stream is closed.
\<close>

theorem C7_close_flushes_then_cleans_up_witness:
  "(case write_f [1] (world_of None False) (open_f GSFile) of
      (r0, w, s) \<Rightarrow>
        temp_ok w s \<and>
        (case flush w s of (r, w1, s1) \<Rightarrow> (r, local_files w1 0, f_temp_file s1)) =
          (Raise UploadError, Some [1], Some 0) \<and>
        (case close w s of
           (r, w', s') \<Rightarrow> (r, local_files w' 0, f_temp_file s', f_buffer s', closed s')) =
          (Raise UploadError, None, None, None, True))"
  using C7_close_flushes_then_cleans_up
    [of "fst (snd (write_f [1] (world_of None False) (open_f GSFile)))"
        "snd (snd (write_f [1] (world_of None False) (open_f GSFile)))"]
  by (simp add: stream_defs temp_ok_def)

text \<open>
  Claim C10 (the stream as a context manager). Whatever calls the body makes on the stream
  and whether or not it raises, after the \<^verbatim>\<open>with\<close> block the stream is closed, has no
  buffer and no temporary file, and no local file is left that was not there before. If
  the body left the stream open, the exit ran \<^verbatim>\<open>flush\<close> on it: the remote object and the
  uploads are those \<^verbatim>\<open>flush\<close> produces, the temporary file \<^verbatim>\<open>flush\<close> left is
  deleted, and the block raises the error of \<^verbatim>\<open>flush\<close> if there is one, else ends as
  the body ended.
\<close>

theorem C10_with_block_closes:
  assumes "temp_ok w s"
  shows "case run body w (enter s) of
      (r1, w1, s1) \<Rightarrow>
        (case with_stream (run body) w s of
           (r, w', s') \<Rightarrow>
             closed s' \<and> f_buffer s' = None \<and> f_temp_file s' = None \<and>
             (\<forall>p. local_files w' p = None \<or> local_files w p \<noteq> None) \<and>
             (if f_closed s1 then (r, w', s') = (r1, w1, s1)
              else (case flush w1 s1 of
                  (r2, w2, s2) \<Rightarrow>
                    r = (case r2 of Raise e \<Rightarrow> Raise e | Return u \<Rightarrow> r1) \<and>
                    blob_data w' = blob_data w2 \<and> uploaded w' = uploaded w2 \<and>
                    (case f_temp_file s2 of
                       None \<Rightarrow> True
                     | Some p \<Rightarrow> local_files w' p = None))))"
proof -
  define D where "D = {p. local_files w p \<noteq> None}"
  obtain r1 w1 s1 where b: "run body w (enter s) = (r1, w1, s1)"
    by (cases "run body w (enter s)") auto
  have "stream_inv D w (enter s)"
    using assms by (auto simp: stream_inv_def temp_ok_def enter_def open_f_def D_def split: option.splits)
  then have i1: "stream_inv D w1 s1"
    using run_inv b by blast
  then have t1: "temp_ok w1 s1"
    and f1: "\<And>p. local_files w1 p = None \<or> p \<in> D \<or> f_temp_file s1 = Some p"
    by (simp_all add: stream_inv_def)
  show ?thesis
  proof (cases "f_closed s1")
    case True
    then have c: "close w1 s1 = (Return (), w1, s1)" by (rule close_closed)
    from True i1 have "f_buffer s1 = None" and n: "f_temp_file s1 = None"
      by (simp_all add: stream_inv_def)
    moreover have "local_files w1 p = None \<or> local_files w p \<noteq> None" for p
      using f1 [of p] n by (simp add: D_def)
    ultimately show ?thesis
      using b c True by (simp add: with_stream_def exit_f_def closed_def)
  next
    case False
    obtain r2 w2 s2 where fl: "flush w1 s1 = (r2, w2, s2)"
      by (cases "flush w1 s1") auto
    have i2: "stream_inv D w2 s2" using flush_inv [OF i1 fl] by simp
    have c: "close w1 s1 =
      (r2,
       w2\<lparr>local_files := (case f_temp_file s2 of
                             None \<Rightarrow> local_files w2
                           | Some p \<Rightarrow> (local_files w2)(p := None))\<rparr>,
       s2\<lparr>f_temp_file := None, f_buffer := None, f_closed := True\<rparr>)"
      using close_open [OF t1 False fl] .
    have "(case f_temp_file s2 of
             None \<Rightarrow> local_files w2
           | Some p \<Rightarrow> (local_files w2)(p := None)) p = None \<or> local_files w p \<noteq> None" for p
    proof -
      have "local_files w2 p = None \<or> p \<in> D \<or> f_temp_file s2 = Some p"
        using i2 by (simp add: stream_inv_def)
      then show ?thesis by (auto simp: D_def split: option.splits)
    qed
    then show ?thesis
      using b c fl False
      by (cases r2) (auto simp: with_stream_def exit_f_def closed_def split: option.splits)
  qed
qed

text \<open>
  A body that writes one byte and then raises: the block raises the body's exception, the
  byte has been uploaded, the temporary file is deleted and the stream is closed.
\<close>

theorem C10_with_block_closes_witness:
  "temp_ok (world_of None True) GSFile \<and>
   (case with_stream (run [Write [1], Fail]) (world_of None True) GSFile of
      (r, w', s') \<Rightarrow> (r, blob_data w', local_files w' 0, closed s', f_temp_file s')) =
     (Raise BodyError, Some [1], None, True, None)"
proof -
  have t: "temp_ok (world_of None True) GSFile"
    by (simp add: temp_ok_def GSFile_def)
  show ?thesis
    using t C10_with_block_closes [OF t, of "[Write [1], Fail]"]
    by (simp add: stream_defs with_stream_def exit_f_def enter_def discard_def)
qed

subsection \<open>The gzip test\<close>

lemma lt16: "(x::nat) < 16 \<Longrightarrow> x \<in> {0,1,2,3,4,5,6,7,8,9,10,11,12,13,14,15}"
  by (simp, arith)

lemma hex_digit_cases:
  assumes "x < 16"
  shows "(hex_digit x = CHR ''1'') = (x = 1)"
    and "(hex_digit x = CHR ''f'') = (x = 15)"
    and "(hex_digit x = CHR ''8'') = (x = 8)"
    and "(hex_digit x = CHR ''b'') = (x = 11)"
  using lt16 [OF assms] by (auto simp: hex_digit_def)

lemma hexlify_gzip_magic:
  "(hexlify (Bytes [a, b]) = Some ''1f8b'') = ([a, b] = [0x1F, 0x8B])"
proof -
  have a: "unat a div 16 < 16" "unat a mod 16 < 16" "unat b div 16 < 16" "unat b mod 16 < 16"
  proof -
    have "unat a < 256" and "unat b < 256"
      using unsigned_less [of a, where 'a = nat] unsigned_less [of b, where 'a = nat] by simp_all
    then show "unat a div 16 < 16" and "unat b div 16 < 16" by arith+
  qed simp_all
  have "(hexlify (Bytes [a, b]) = Some ''1f8b'') =
    (unat a div 16 = 1 \<and> unat a mod 16 = 15 \<and> unat b div 16 = 8 \<and> unat b mod 16 = 11)"
    by (simp add: hexlify_def hex_digit_cases [OF a(1)] hex_digit_cases [OF a(2)]
      hex_digit_cases [OF a(3)] hex_digit_cases [OF a(4)])
  also have "\<dots> = (unat a = 31 \<and> unat b = 139)"
    by presburger
  also have "\<dots> = (a = 0x1F \<and> b = 0x8B)"
    by (simp add: word_unat_eq_iff)
  finally show ?thesis by simp
qed

lemma read_two_remote:
  assumes "f_temp_file s = None" and "blob_data w = Some c" and "2 \<le> length c" and "f_offset s = 0"
  shows "read (Some 2) w s = (Return (Bytes (take 2 c)), w, s\<lparr>f_offset := 2\<rparr>)"
  using assms by (auto simp: read_def Let_def download_as_string_def)

lemma seek_start_no_buffer:
  "\<not> truthy (f_buffer s) \<Longrightarrow> seek pos 0 w s = (Return pos, w, s\<lparr>f_offset := pos\<rparr>)"
  by (simp add: seek_def)

lemma is_gz_peek:
  assumes "f_gz s = None" and "f_temp_file s = None" and "\<not> truthy (f_buffer s)"
    and "blob_data w = Some c" and "2 \<le> length c"
  shows "is_gz w s =
    (Return (take 2 c = [0x1F, 0x8B]), w, s\<lparr>f_gz := Some (take 2 c = [0x1F, 0x8B])\<rparr>)"
proof -
  obtain a b r where c: "c = a # b # r"
    using assms(5) by (cases c; cases "tl c") auto
  have s0: "seek 0 0 w s = (Return 0, w, s\<lparr>f_offset := 0\<rparr>)"
    using assms(3) by (rule seek_start_no_buffer)
  have rd: "read (Some 2) w (s\<lparr>f_offset := 0\<rparr>) =
      (Return (Bytes [a, b]), w, s\<lparr>f_offset := 2\<rparr>)"
    using read_two_remote [of "s\<lparr>f_offset := 0\<rparr>" w c] assms(2,4,5) c by simp
  have s1: "seek (tell s) 0 w (s\<lparr>f_offset := 2\<rparr>) = (Return (tell s), w, s)"
    using assms(3) seek_start_no_buffer [of "s\<lparr>f_offset := 2\<rparr>" "tell s" w]
    by (simp add: tell_def)
  obtain h where h: "hexlify (Bytes [a, b]) = Some h"
    by (simp add: hexlify_def)
  have g: "(h = ''1f8b'') = (take 2 c = [0x1F, 0x8B])"
    using hexlify_gzip_magic [of a b] h c by simp
  show ?thesis
    using assms(1,4,5) s0 rd s1 h g
    by (simp add: is_gz_def blob_size_def Let_def)
qed

text \<open>
  Claim C9 as the code has it. A cached result is returned as it is, and nothing changes.
  With nothing cached, over an existing object: an object shorter than two bytes gives
  \<open>False\<close> in every state of the stream, nothing changes, and that result is not cached;
  for an object of two bytes or more, on a stream with no temporary file and no pending
  bytes, the result is whether the first two bytes are \<open>0x1F 0x8B\<close>, the world and the
  stream (its offset included) are as before, and the result is cached.
\<close>

theorem C9_is_gz:
  "(f_gz s = Some g \<longrightarrow> is_gz w s = (Return g, w, s)) \<and>
   (f_gz s = None \<and> blob_data w = Some c \<and> length c < 2 \<longrightarrow>
      is_gz w s = (Return False, w, s)) \<and>
   (f_gz s = None \<and> blob_data w = Some c \<and> 2 \<le> length c \<and>
    f_temp_file s = None \<and> \<not> truthy (f_buffer s) \<longrightarrow>
      is_gz w s =
        (Return (take 2 c = [0x1F, 0x8B]), w, s\<lparr>f_gz := Some (take 2 c = [0x1F, 0x8B])\<rparr>))"
proof (intro conjI impI)
  assume "f_gz s = Some g"
  then show "is_gz w s = (Return g, w, s)" by (simp add: is_gz_def)
next
  assume "f_gz s = None \<and> blob_data w = Some c \<and> length c < 2"
  then show "is_gz w s = (Return False, w, s)"
    by (simp add: is_gz_def blob_size_def)
next
  assume "f_gz s = None \<and> blob_data w = Some c \<and> 2 \<le> length c \<and>
    f_temp_file s = None \<and> \<not> truthy (f_buffer s)"
  then show "is_gz w s =
      (Return (take 2 c = [0x1F, 0x8B]), w, s\<lparr>f_gz := Some (take 2 c = [0x1F, 0x8B])\<rparr>)"
    using is_gz_peek [of s w c] by simp
qed

text \<open>
  The three cases at concrete streams: a cached \<open>True\<close> over no object at all; the object
  of the one byte \<open>0x1F\<close> on a stream that was opened and has written a byte, still
  pending; the object \<open>0x1F 0x8B 0x00\<close> on a new stream at offset 7.
\<close>

theorem C9_is_gz_witness:
  "is_gz (world_of None True) (GSFile\<lparr>f_gz := Some True\<rparr>) =
     (Return True, world_of None True, GSFile\<lparr>f_gz := Some True\<rparr>) \<and>
   (case write_f [0x61] (world_of (Some [0x1F]) True) (open_f GSFile) of
      (r1, w1, s1) \<Rightarrow>
        truthy (f_buffer s1) \<and> f_gz s1 = None \<and> blob_data w1 = Some [0x1F] \<and>
        is_gz w1 s1 = (Return False, w1, s1)) \<and>
   is_gz (world_of (Some [0x1F, 0x8B, 0]) True) (GSFile\<lparr>f_offset := 7\<rparr>) =
     (Return True, world_of (Some [0x1F, 0x8B, 0]) True, GSFile\<lparr>f_offset := 7, f_gz := Some True\<rparr>)"
  using C9_is_gz [of "GSFile\<lparr>f_gz := Some True\<rparr>" True "world_of None True" "[]"]
    C9_is_gz [of "snd (snd (write_f [0x61] (world_of (Some [0x1F]) True) (open_f GSFile)))" True
      "fst (snd (write_f [0x61] (world_of (Some [0x1F]) True) (open_f GSFile)))" "[0x1F]"]
    C9_is_gz [of "GSFile\<lparr>f_offset := 7\<rparr>" True "world_of (Some [0x1F, 0x8B, 0]) True"
      "[0x1F, 0x8B, 0]"]
  by (simp add: GSFile_def world_of_def truthy_def write_f_def open_f_def closed_def Let_def)

text \<open>
  Claim C9 as the spec states it fails for the caching: on an object of the one byte
  \<open>0x1F\<close>, \<^verbatim>\<open>is_gz\<close> returns \<open>False\<close> and caches nothing. After the same stream has
  been opened, has written the byte \<open>0x8B\<close> behind it and has been closed, the object is
  \<open>0x1F 0x8B\<close>, and \<^verbatim>\<open>is_gz\<close> on that stream looks again and returns \<open>True\<close>.
\<close>

theorem C9_short_object_not_cached_counterexample:
  "(case is_gz (world_of (Some [0x1F]) True) GSFile of
      (r1, w1, s1) \<Rightarrow>
        (case write_f [0x8B] w1 (open_f s1) of
           (r2, w2, s2) \<Rightarrow>
             (case close w2 s2 of
                (r3, w3, s3) \<Rightarrow>
                  (case is_gz w3 s3 of
                     (r4, w4, s4) \<Rightarrow> (r1, f_gz s1, r2, r3, blob_data w3, r4))))) =
   (Return False, None, Return 1, Return (), Some [0x1F, 0x8B], Return True)"
  by (simp add: is_gz_def hexlify_def hex_digit_def stream_defs)

subsection \<open>Copying\<close>

lemma startswith_append: "startswith (p @ s) p"
  by (simp add: startswith_def)

lemma startswith_iff: "startswith s p \<longleftrightarrow> (\<exists>t. s = p @ t)"
  by (metis append_eq_conv_conj startswith_def)

lemma replace1_startswith:
  "startswith s old \<Longrightarrow> replace1 s old new = new @ drop (length old) s"
  by (cases s) (auto simp: startswith_def)

lemma replace1_first_occurrence:
  "(\<forall>pre' post'. pre @ old @ post = pre' @ old @ post' \<longrightarrow> length pre \<le> length pre') \<Longrightarrow>
     replace1 (pre @ old @ post) old new = pre @ new @ post"
proof (induction pre)
  case Nil
  show ?case
    using replace1_startswith [OF startswith_append, of old post new] by simp
next
  case (Cons a pre)
  have ns: "\<not> startswith (a # pre @ old @ post) old"
  proof
    assume "startswith (a # pre @ old @ post) old"
    then obtain t where "a # pre @ old @ post = [] @ old @ t"
      by (auto simp: startswith_iff)
    with Cons.prems have "length (a # pre) \<le> length ([]::string)"
      by (metis append_Cons)
    then show False by simp
  qed
  have "\<forall>pre' post'. pre @ old @ post = pre' @ old @ post' \<longrightarrow> length pre \<le> length pre'"
  proof (intro allI impI)
    fix pre' post'
    assume "pre @ old @ post = pre' @ old @ post'"
    then have "(a # pre) @ old @ post = (a # pre') @ old @ post'" by simp
    with Cons.prems have "length (a # pre) \<le> length (a # pre')" by blast
    then show "length pre \<le> length pre'" by simp
  qed
  from Cons.IH [OF this] ns show ?case by simp
qed

lemma replace1_absent:
  "(\<forall>pre post. s \<noteq> pre @ old @ post) \<Longrightarrow> replace1 s old new = s"
proof (induction s)
  case Nil
  then show ?case by (metis append_Nil replace1.simps(1))
next
  case (Cons c cs)
  have ns: "\<not> startswith (c # cs) old"
    using Cons.prems by (metis append_Nil startswith_iff)
  have "\<forall>pre post. cs \<noteq> pre @ old @ post"
    using Cons.prems by (metis append_Cons)
  from Cons.IH [OF this] ns show ?case by simp
qed

lemma replace1_prefix:
  "replace1 (old @ post) old new = new @ post"
  using replace1_first_occurrence [of "[]" old post new] by simp

lemma startswith_length:
  "startswith s p \<Longrightarrow> length p \<le> length s"
  by (auto simp: startswith_iff)

lemma after_scheme_length:
  "after_scheme u = Some r \<Longrightarrow> 3 + length r \<le> length u"
proof (induction u)
  case Nil
  then show ?case by simp
next
  case (Cons c cs)
  show ?case
  proof (cases "startswith (c # cs) ''://''")
    case True
    from startswith_length [OF True] have "3 \<le> length (c # cs)" by simp
    moreover from True Cons.prems have "r = drop 3 (c # cs)" by simp
    ultimately show ?thesis by simp
  next
    case False
    with Cons.prems have "after_scheme cs = Some r" by simp
    from Cons.IH [OF this] show ?thesis by simp
  qed
qed

lemma startswith_longer:
  "length p \<le> length s \<Longrightarrow> startswith (s @ x) p = startswith s p"
  by (simp add: startswith_def)

lemma after_scheme_append:
  "after_scheme u = Some r \<Longrightarrow> after_scheme (u @ x) = Some (r @ x)"
proof (induction u)
  case Nil
  then show ?case by simp
next
  case (Cons c cs)
  have len: "length ''://'' \<le> length (c # cs)"
    using after_scheme_length [OF Cons.prems] by simp
  have sw: "startswith ((c # cs) @ x) ''://'' = startswith (c # cs) ''://''"
    using startswith_longer [OF len] .
  show ?case
  proof (cases "startswith (c # cs) ''://''")
    case True
    with Cons.prems sw len show ?thesis by auto
  next
    case False
    with Cons.prems have "after_scheme cs = Some r" by simp
    from Cons.IH [OF this] False sw show ?thesis by simp
  qed
qed

lemma endswith_sep: "endswith s ''/'' \<longleftrightarrow> (s \<noteq> [] \<and> last s = CHR ''/'')"
proof (cases s rule: rev_cases)
  case Nil
  then show ?thesis by (simp add: endswith_def)
next
  case (snoc ys y)
  then show ?thesis by (simp add: endswith_def)
qed

lemma after_scheme_last:
  "after_scheme u = Some r \<Longrightarrow> r \<noteq> [] \<Longrightarrow> last u = last r"
  by (induction u) (auto simp: startswith_def split: if_splits)

lemma prefix_of_path:
  "o_prefix (GSObject u) = (let p = uri_path u in if startswith p ''/'' then drop 1 p else p)"
  by (simp add: GSObject_def Let_def)

lemma uri_parts:
  assumes "after_scheme u = Some r"
  shows "uri_hostname u = takeWhile (\<lambda>c. c \<noteq> CHR ''/'') r"
    and "uri_path u = dropWhile (\<lambda>c. c \<noteq> CHR ''/'') r"
  using assms by (simp_all add: uri_hostname_def uri_path_def)

lemma path_head:
  "uri_path u = p \<Longrightarrow> after_scheme u = Some r \<Longrightarrow> p = [] \<or> hd p = CHR ''/''"
  using hd_dropWhile [of "\<lambda>c. c \<noteq> CHR ''/''" r] by (auto simp: uri_parts)

lemma uri_append_path:
  assumes a: "after_scheme u = Some r" and p: "uri_path u = CHR ''/'' # q"
  shows "uri_path (u @ x) = CHR ''/'' # q @ x"
    and "uri_hostname (u @ x) = uri_hostname u"
proof -
  let ?P = "\<lambda>c. c \<noteq> CHR ''/''"
  have r: "r = takeWhile ?P r @ CHR ''/'' # q"
    using p a takeWhile_dropWhile_id [of ?P r] by (simp add: uri_parts)
  have ns: "\<forall>c\<in>set (takeWhile ?P r). ?P c"
    by (auto dest: set_takeWhileD)
  have d: "dropWhile ?P (r @ x) = CHR ''/'' # q @ x"
  proof -
    have "dropWhile ?P (r @ x) = dropWhile ?P (takeWhile ?P r @ (CHR ''/'' # q @ x))"
      using r by (metis append.assoc append_Cons)
    also have "\<dots> = dropWhile ?P (CHR ''/'' # q @ x)"
      by (rule dropWhile_append2) (use ns in auto)
    finally show ?thesis by simp
  qed
  have t: "takeWhile ?P (r @ x) = takeWhile ?P r"
  proof -
    have "takeWhile ?P (r @ x) = takeWhile ?P (takeWhile ?P r @ (CHR ''/'' # q @ x))"
      using r by (metis append.assoc append_Cons)
    also have "\<dots> = takeWhile ?P r @ takeWhile ?P (CHR ''/'' # q @ x)"
      by (rule takeWhile_append2) (use ns in auto)
    finally show ?thesis by simp
  qed
  from after_scheme_append [OF a, of x] d show "uri_path (u @ x) = CHR ''/'' # q @ x"
    by (simp add: uri_path_def)
  from after_scheme_append [OF a, of x] t a show "uri_hostname (u @ x) = uri_hostname u"
    by (simp add: uri_hostname_def)
qed

lemma uri_append_root:
  assumes a: "after_scheme u = Some r" and p: "uri_path u = []"
  shows "uri_path (u @ CHR ''/'' # x) = CHR ''/'' # x"
    and "uri_hostname (u @ CHR ''/'' # x) = uri_hostname u"
proof -
  let ?P = "\<lambda>c. c \<noteq> CHR ''/''"
  have ns: "\<forall>c\<in>set r. ?P c"
    using p a by (simp add: uri_parts dropWhile_eq_Nil_conv)
  have d: "dropWhile ?P (r @ CHR ''/'' # x) = CHR ''/'' # x"
    using ns by (simp add: dropWhile_append2)
  have t: "takeWhile ?P (r @ CHR ''/'' # x) = r"
    using ns by (simp add: takeWhile_append2)
  have t0: "takeWhile ?P r = r"
    using ns by (simp add: takeWhile_eq_all_conv)
  from after_scheme_append [OF a, of "CHR ''/'' # x"] d
  show "uri_path (u @ CHR ''/'' # x) = CHR ''/'' # x"
    by (simp add: uri_path_def)
  from after_scheme_append [OF a, of "CHR ''/'' # x"] a
  show "uri_hostname (u @ CHR ''/'' # x) = uri_hostname u"
    by (simp add: uri_hostname_def t t0)
qed

lemma prefix_of_parts:
  "o_prefix (GSObject u) = (case uri_path u of [] \<Rightarrow> [] | c # q \<Rightarrow> if c = CHR ''/'' then q else c # q)"
  by (simp add: GSObject_def Let_def startswith_def split: list.splits)

lemma endswith_uri:
  assumes a: "after_scheme u = Some r" and h: "uri_hostname u \<noteq> []"
  shows "endswith u ''/'' \<longleftrightarrow> (uri_path u \<noteq> [] \<and> last (uri_path u) = CHR ''/'')"
proof -
  let ?P = "\<lambda>c. c \<noteq> CHR ''/''"
  have r: "r = uri_hostname u @ uri_path u"
    using a by (simp add: uri_parts)
  then have rn: "r \<noteq> []" using h by simp
  have un: "u \<noteq> []" using a by auto
  have lu: "last u = last r" using after_scheme_last [OF a rn] .
  have lh: "last (uri_hostname u) \<noteq> CHR ''/''"
  proof -
    have "last (uri_hostname u) \<in> set (takeWhile ?P r)"
      using h a by (simp add: uri_parts)
    then show ?thesis by (auto dest: set_takeWhileD)
  qed
  have "last r = (if uri_path u = [] then last (uri_hostname u) else last (uri_path u))"
    by (subst r) simp
  with lu lh un show ?thesis by (auto simp: endswith_sep)
qed

lemma copy_destination_prefix:
  assumes a: "after_scheme to = Some r" and h: "uri_hostname to \<noteq> []"
  shows "o_prefix (GSObject (copy_to self to)) =
     (let p = o_prefix (GSObject to);
          into = (p = [] \<or> endswith to ''/'')
      in if endswith (o_prefix self) ''/''
         then (if into then p @ name self @ ''/'' else p @ ''/'')
         else (if into then p @ name self else p)) \<and>
     bucket_name (GSObject (copy_to self to)) = bucket_name (GSObject to)"
proof (cases "uri_path to")
  case Nil
  have p0: "o_prefix (GSObject to) = []"
    using Nil by (simp add: prefix_of_parts)
  have ne: "\<not> endswith to ''/''"
    using endswith_uri [OF a h] Nil by simp
  have ct: "copy_to self to =
      (if endswith (o_prefix self) ''/'' then to @ CHR ''/'' # (name self @ ''/'')
       else to @ CHR ''/'' # name self)"
    using p0 ne by (simp add: copy_to_def endswith_sep)
  have pa: "o_prefix (GSObject (to @ CHR ''/'' # x)) = x" for x
    using uri_append_root(1) [OF a Nil, of x] by (simp add: prefix_of_parts)
  have ha: "bucket_name (GSObject (to @ CHR ''/'' # x)) = bucket_name (GSObject to)" for x
    using uri_append_root(2) [OF a Nil, of x] by (simp add: bucket_name_def GSObject_def Let_def)
  show ?thesis
    using p0 pa ha by (simp add: ct)
next
  case (Cons c q)
  have c: "c = CHR ''/''"
    using path_head [OF Cons a] by simp
  have p: "uri_path to = CHR ''/'' # q" using Cons c by simp
  have p0: "o_prefix (GSObject to) = q"
    using p by (simp add: prefix_of_parts)
  have e: "endswith to ''/'' \<longleftrightarrow> (q = [] \<or> last q = CHR ''/'')"
    using endswith_uri [OF a h] p by auto
  have ct: "copy_to self to =
      (if endswith (o_prefix self) ''/''
       then (if endswith to ''/'' then to @ (name self @ ''/'') else to @ ''/'')
       else (if endswith to ''/'' then to @ name self else to @ []))"
    using p0 e by (auto simp: copy_to_def)
  have pa: "o_prefix (GSObject (to @ x)) = q @ x" for x
    using uri_append_path(1) [OF a p, of x] by (simp add: prefix_of_parts)
  have ha: "bucket_name (GSObject (to @ x)) = bucket_name (GSObject to)" for x
    using uri_append_path(2) [OF a p, of x] by (simp add: bucket_name_def GSObject_def Let_def)
  show ?thesis
    unfolding ct using p0 e pa ha by (simp add: Let_def)
qed

lemma copy_as_filter:
  "copy self to source_files =
     (let dest = GSObject (copy_to self to)
      in map (\<lambda>k. (k, bucket_name dest, replace1 k (o_prefix self) (o_prefix dest)))
           (filter (\<lambda>k. replace1 k (o_prefix self) (o_prefix dest) \<noteq> k) source_files))"
  by (induction source_files) (simp_all add: copy_def Let_def)

text \<open>
  Claim C2 (copy). For a destination \<^verbatim>\<open>to\<close> that is a URI with a bucket, whose prefix is
  \<open>p\<close>: a bucket root counts as ending in the separator; a folder source (its prefix ends
  in the separator) copied to a destination that ends in the separator gets the prefix
  \<open>p\<close>, the source's base name and a separator, which keeps it a folder; copied to a
  destination that does not, it gets \<open>p\<close> and a separator. A source that is not a folder
  gets \<open>p\<close> and its base name, or \<open>p\<close> alone. The bucket is that of \<^verbatim>\<open>to\<close>. Each listed
  name is then copied to the name with the first occurrence of the source prefix replaced
  by the destination prefix, and a name that the replacement leaves as it is makes no
  copy. The example of the docstring comes out as the claim says.
\<close>

theorem C2_copy:
  assumes "after_scheme to = Some r" and "uri_hostname to \<noteq> []"
  shows "let dest = GSObject (copy_to self to);
             p = o_prefix (GSObject to);
             into = (p = [] \<or> endswith to ''/'')
         in o_prefix dest =
              (if endswith (o_prefix self) ''/''
               then (if into then p @ name self @ ''/'' else p @ ''/'')
               else (if into then p @ name self else p)) \<and>
            bucket_name dest = bucket_name (GSObject to) \<and>
            copy self to source_files =
              map (\<lambda>k. (k, bucket_name dest, replace1 k (o_prefix self) (o_prefix dest)))
                (filter (\<lambda>k. replace1 k (o_prefix self) (o_prefix dest) \<noteq> k) source_files) \<and>
            (\<forall>pre post.
               (\<forall>pre' post'. pre @ o_prefix self @ post = pre' @ o_prefix self @ post' \<longrightarrow>
                  length pre \<le> length pre') \<longrightarrow>
               replace1 (pre @ o_prefix self @ post) (o_prefix self) (o_prefix dest) =
                 pre @ o_prefix dest @ post) \<and>
            (\<forall>k. (\<forall>pre post. k \<noteq> pre @ o_prefix self @ post) \<longrightarrow>
               replace1 k (o_prefix self) (o_prefix dest) = k) \<and>
            copy (GSFolder ''gs://bucket_a/a/b/c/'') ''gs://bucket_b/x/y/z''
                [''a/b/c/d/example.txt'', ''a/b/c/example.txt''] =
              [(''a/b/c/d/example.txt'', ''bucket_b'', ''x/y/z/d/example.txt''),
               (''a/b/c/example.txt'', ''bucket_b'', ''x/y/z/example.txt'')]"
proof -
  have ex: "copy (GSFolder ''gs://bucket_a/a/b/c/'') ''gs://bucket_b/x/y/z''
                [''a/b/c/d/example.txt'', ''a/b/c/example.txt''] =
              [(''a/b/c/d/example.txt'', ''bucket_b'', ''x/y/z/d/example.txt''),
               (''a/b/c/example.txt'', ''bucket_b'', ''x/y/z/example.txt'')]"
    by (simp add: copy_def copy_to_def GSFolder_def GSObject_def uri_path_def uri_hostname_def
        startswith_def endswith_def bucket_name_def name_def basename_def Let_def)
  show ?thesis
    unfolding Let_def
    using copy_destination_prefix [OF assms, of self] copy_as_filter [of self to source_files]
      replace1_first_occurrence replace1_absent ex
    by (simp add: Let_def)
qed

text \<open>
  The folder \<^verbatim>\<open>test_folder/\<close> copied into \<^verbatim>\<open>copy_test/\<close>, as in the repository's tests.
\<close>

theorem C2_copy_witness:
  "after_scheme ''gs://aries_test/copy_test/'' = Some ''aries_test/copy_test/'' \<and>
   uri_hostname ''gs://aries_test/copy_test/'' \<noteq> [] \<and>
   o_prefix (GSObject (copy_to (GSFolder ''gs://aries_test/test_folder/'') ''gs://aries_test/copy_test/'')) =
     ''copy_test/test_folder/'' \<and>
   copy (GSFolder ''gs://aries_test/test_folder/'') ''gs://aries_test/copy_test/''
       [''test_folder/file_in_folder.txt''] =
     [(''test_folder/file_in_folder.txt'', ''aries_test'', ''copy_test/test_folder/file_in_folder.txt'')]"
proof -
  have a: "after_scheme ''gs://aries_test/copy_test/'' = Some ''aries_test/copy_test/''"
    by (simp add: startswith_def)
  have h: "uri_hostname ''gs://aries_test/copy_test/'' \<noteq> []"
    by (simp add: uri_hostname_def startswith_def)
  show ?thesis
    using a h C2_copy [OF a h, of "GSFolder ''gs://aries_test/test_folder/''"
        "[''test_folder/file_in_folder.txt'']"]
    by (simp add: GSFolder_def GSObject_def uri_path_def uri_hostname_def
        startswith_def endswith_def bucket_name_def name_def basename_def Let_def)
qed

end
